theory Spec2Isabelle
  imports Main "HOL-Library.Sublist"
begin

section \<open>The URL safety checker of tools/check\_url\_safety.py\<close>

text \<open>
  The development embeds \<^verbatim>\<open>URLSafetyChecker\<close> (\<^verbatim>\<open>check_url\<close>, \<^verbatim>\<open>_result\<close>,
  \<^verbatim>\<open>check_batch\<close>) together with the part of the Python library it calls:
  \<^verbatim>\<open>str.strip\<close>, \<^verbatim>\<open>str.lower\<close>, \<^verbatim>\<open>str.split\<close>, the \<^verbatim>\<open>in\<close> test on strings,
  \<^verbatim>\<open>urllib.parse.urlparse\<close> and \<^verbatim>\<open>re.search\<close> with \<^verbatim>\<open>re.IGNORECASE\<close>.

  A Python string is modelled as a \<^typ>\<open>string\<close>: a list of characters with code points
  below 256. All character functions below follow Python on that range.
\<close>

subsection \<open>Python values and exceptions\<close>

datatype exn = ValueError string | AttributeError string | ReError string

text \<open>The argument of \<^verbatim>\<open>check_url\<close> is annotated \<^verbatim>\<open>str\<close>, but the code tests its type at run
  time, so the argument is a dynamically typed value. The method does two things with a value
  before it knows that it is a string: it takes its truth value (\<^verbatim>\<open>not url\<close>) and it tests its
  type. \<open>PyObject t\<close> stands for every object that is none of the named kinds; \<open>t\<close> is what
  its truth test does: it returns a truth value, or it raises (a released \<^verbatim>\<open>memoryview\<close>, an
  array with several elements).\<close>

datatype pyval =
  PyNone | PyBool bool | PyInt int | PyStr string | PyList "pyval list" | PyObject "exn + bool"

text \<open>\<^verbatim>\<open>str(e)\<close> of an exception raised with one message.\<close>

fun exn_str :: "exn \<Rightarrow> string" where
  "exn_str (ValueError m) = m"
| "exn_str (AttributeError m) = m"
| "exn_str (ReError m) = m"

text \<open>Truth value of an object (\<^verbatim>\<open>not url\<close> is its negation); \<open>Inl\<close> when the truth test
  raises.\<close>

fun truthy :: "pyval \<Rightarrow> exn + bool" where
  "truthy PyNone = Inr False"
| "truthy (PyBool b) = Inr b"
| "truthy (PyInt i) = Inr (i \<noteq> 0)"
| "truthy (PyStr s) = Inr (s \<noteq> [])"
| "truthy (PyList xs) = Inr (xs \<noteq> [])"
| "truthy (PyObject t) = t"

fun isinstance_str :: "pyval \<Rightarrow> bool" where
  "isinstance_str (PyStr s) = True"
| "isinstance_str v = False"

subsection \<open>Characters and strings\<close>

definition ord :: "char \<Rightarrow> nat" where
  "ord c = of_char c"

definition backslash :: string where
  "backslash = [CHR 0x5C]"

definition quote :: string where
  "quote = [CHR 0x27]"

definition newline :: char where
  "newline = CHR 0x0A"

text \<open>\<^verbatim>\<open>str.isspace\<close>: tab to carriage return, the four separators 28 to 31, the space, and
  the two whitespace characters of the upper half (next line, no-break space).\<close>

definition isspace :: "char \<Rightarrow> bool" where
  "isspace c = (let n = ord c in
     (9 \<le> n \<and> n \<le> 13) \<or> (28 \<le> n \<and> n \<le> 32) \<or> n = 133 \<or> n = 160)"

definition isdigit :: "char \<Rightarrow> bool" where
  "isdigit c = (let n = ord c in 48 \<le> n \<and> n \<le> 57)"

text \<open>\<^verbatim>\<open>c.isascii() and c.isalpha()\<close>.\<close>

definition is_ascii_alpha :: "char \<Rightarrow> bool" where
  "is_ascii_alpha c = (let n = ord c in (65 \<le> n \<and> n \<le> 90) \<or> (97 \<le> n \<and> n \<le> 122))"

text \<open>The upper-case letters below 256 are A to Z and the accented capitals 192 to 222 without
  the multiplication sign 215; each has its lower-case form 32 places further.\<close>

definition isupper :: "char \<Rightarrow> bool" where
  "isupper c = (let n = ord c in
     (65 \<le> n \<and> n \<le> 90) \<or> (192 \<le> n \<and> n \<le> 222 \<and> n \<noteq> 215))"

definition lower_char :: "char \<Rightarrow> char" where
  "lower_char c = (if isupper c then char_of (ord c + 32) else c)"

definition lower :: "string \<Rightarrow> string" where
  "lower s = map lower_char s"

text \<open>\<^verbatim>\<open>str.strip()\<close> removes the whitespace at both ends.\<close>

definition lstrip :: "string \<Rightarrow> string" where
  "lstrip s = dropWhile isspace s"

definition rstrip :: "string \<Rightarrow> string" where
  "rstrip s = rev (dropWhile isspace (rev s))"

definition strip :: "string \<Rightarrow> string" where
  "strip s = rstrip (lstrip s)"

text \<open>The method call \<^verbatim>\<open>url.strip()\<close> on a dynamically typed value: only a string has the
  method here.\<close>

fun py_strip :: "pyval \<Rightarrow> exn + string" where
  "py_strip (PyStr s) = Inr (strip s)"
| "py_strip v = Inl (AttributeError ''object has no attribute strip'')"

text \<open>\<^verbatim>\<open>sub in s\<close> on strings: \<^verbatim>\<open>sub\<close> occurs in \<^verbatim>\<open>s\<close> as a contiguous piece.\<close>

fun startswith :: "string \<Rightarrow> string \<Rightarrow> bool" where
  "startswith s [] = True"
| "startswith [] (p # ps) = False"
| "startswith (c # cs) (p # ps) = (c = p \<and> startswith cs ps)"

fun str_in :: "string \<Rightarrow> string \<Rightarrow> bool" where
  "str_in sub [] = (sub = [])"
| "str_in sub (c # cs) = (startswith (c # cs) sub \<or> str_in sub cs)"

text \<open>\<^verbatim>\<open>s.split(sep)\<close> for a separator of one character.\<close>

fun split_on :: "char \<Rightarrow> string \<Rightarrow> string list" where
  "split_on sep [] = [[]]"
| "split_on sep (c # cs) =
     (if c = sep then [] # split_on sep cs
      else (case split_on sep cs of [] \<Rightarrow> [[c]] | p # ps \<Rightarrow> (c # p) # ps))"

text \<open>Decimal digits of a number, as an f-string prints \<^verbatim>\<open>len(...)\<close>.\<close>

definition digit_char :: "nat \<Rightarrow> char" where
  "digit_char d = char_of (48 + d)"

function str_nat :: "nat \<Rightarrow> string" where
  "str_nat n = (if n < 10 then [digit_char n] else str_nat (n div 10) @ [digit_char (n mod 10)])"
  by pat_completeness auto
termination
  by (relation "measure id") auto

declare str_nat.simps [simp del]

subsection \<open>Regular expressions: \<^verbatim>\<open>re.search(pattern, s, re.IGNORECASE)\<close>\<close>

text \<open>
  The fragment of the pattern language that the rule table uses: alternatives separated by
  \<^verbatim>\<open>|\<close>, each a sequence of items; an item is the end anchor \<^verbatim>\<open>$\<close> or an atom (a literal
  character, an escaped character, the dot, a digit class \<^verbatim>\<open>[a-b]\<close>), optionally repeated by
  \<^verbatim>\<open>*\<close>, \<^verbatim>\<open>{m,}\<close> or \<^verbatim>\<open>{m,n}\<close>. A pattern outside the fragment is reported by
  \<open>ReError\<close>, as the library reports a pattern it cannot compile.
\<close>

datatype atom = Lit char | Dot | Range char char

datatype item = One atom | Rep atom nat "nat option" | Eos

type_synonym regex = "item list list"

definition is_ascii_alnum :: "char \<Rightarrow> bool" where
  "is_ascii_alnum c = (is_ascii_alpha c \<or> isdigit c)"

definition is_special :: "char \<Rightarrow> bool" where
  "is_special c = (c \<in> set (''.^$*+?{}[]|()'' @ backslash))"

definition nat_of_digits :: "string \<Rightarrow> nat" where
  "nat_of_digits ds = foldl (\<lambda>n d. 10 * n + (ord d - 48)) 0 ds"

definition parse_atom :: "string \<Rightarrow> (atom \<times> string) option" where
  "parse_atom s =
     (case s of
        [] \<Rightarrow> None
      | c # r \<Rightarrow>
          if [c] = backslash then
            (case r of
               [] \<Rightarrow> None
             | d # r' \<Rightarrow> if is_ascii_alnum d then None else Some (Lit d, r'))
          else if c = CHR ''.'' then Some (Dot, r)
          else if c = CHR ''['' then
            (case r of
               a # m # b # e # r' \<Rightarrow>
                 if isdigit a \<and> m = CHR ''-'' \<and> isdigit b \<and> ord a \<le> ord b \<and> e = CHR '']''
                 then Some (Range a b, r') else None
             | _ \<Rightarrow> None)
          else if is_special c then None
          else Some (Lit c, r))"

definition parse_quant :: "atom \<Rightarrow> string \<Rightarrow> (item \<times> string) option" where
  "parse_quant a s =
     (case s of
        [] \<Rightarrow> Some (One a, [])
      | c # r \<Rightarrow>
          if c = CHR ''*'' then Some (Rep a 0 None, r)
          else if c = CHR ''{'' then
            (let lo = takeWhile isdigit r; r1 = dropWhile isdigit r in
             case r1 of
               [] \<Rightarrow> None
             | d # r2 \<Rightarrow>
                 if lo = [] \<or> d \<noteq> CHR '','' then None
                 else
                   (let hi = takeWhile isdigit r2; r3 = dropWhile isdigit r2 in
                    case r3 of
                      [] \<Rightarrow> None
                    | e # r4 \<Rightarrow>
                        if e \<noteq> CHR ''}'' then None
                        else if hi = [] then Some (Rep a (nat_of_digits lo) None, r4)
                        else if nat_of_digits lo \<le> nat_of_digits hi
                        then Some (Rep a (nat_of_digits lo) (Some (nat_of_digits hi)), r4)
                        else None))
          else Some (One a, s))"

fun add_item :: "item \<Rightarrow> regex \<Rightarrow> regex" where
  "add_item i [] = [[i]]"
| "add_item i (b # bs) = (i # b) # bs"

lemma parse_atom_shorter: "parse_atom s = Some (a, r) \<Longrightarrow> length r < length s"
  by (auto simp: parse_atom_def split: list.splits if_splits)

lemma parse_quant_shorter: "parse_quant a s = Some (i, r) \<Longrightarrow> length r \<le> length s"
proof -
  have d: "length (dropWhile isdigit xs) \<le> length xs" for xs
    by (simp add: length_dropWhile_le)
  assume "parse_quant a s = Some (i, r)"
  then show ?thesis
  proof (cases s)
    case Nil
    with \<open>parse_quant a s = Some (i, r)\<close> show ?thesis
      by (simp add: parse_quant_def)
  next
    case (Cons c t)
    show ?thesis
    proof (cases "c = CHR ''{''")
      case False
      with Cons \<open>parse_quant a s = Some (i, r)\<close> show ?thesis
        by (auto simp: parse_quant_def split: if_splits)
    next
      case True
      with Cons \<open>parse_quant a s = Some (i, r)\<close>
      obtain d r2 e where 1: "dropWhile isdigit t = d # r2" and 2: "dropWhile isdigit r2 = e # r"
        by (auto simp: parse_quant_def Let_def split: list.splits if_splits)
      from 1 d [of t] have "length r2 < length t" by simp
      moreover from 2 d [of r2] have "length r < length r2" by simp
      ultimately show ?thesis using Cons by simp
    qed
  qed
qed

function parse_re :: "string \<Rightarrow> regex option" where
  "parse_re s =
     (case s of
        [] \<Rightarrow> Some [[]]
      | c # r \<Rightarrow>
          if c = CHR ''|'' then map_option (\<lambda>bs. [] # bs) (parse_re r)
          else if c = CHR ''$'' then map_option (add_item Eos) (parse_re r)
          else
            (case parse_atom s of
               None \<Rightarrow> None
             | Some (a, r1) \<Rightarrow>
                 (case parse_quant a r1 of
                    None \<Rightarrow> None
                  | Some (i, r2) \<Rightarrow> map_option (add_item i) (parse_re r2))))"
  by pat_completeness auto
termination
proof (relation "measure length", goal_cases)
  case 1
  show ?case by simp
next
  case (2 s c r)
  then show ?case by simp
next
  case (3 s c r)
  then show ?case by simp
next
  case (4 s c r x2 a r1 x2a i r2)
  then show ?case
    using parse_atom_shorter [of s a r1] parse_quant_shorter [of a r1 i r2] by simp
qed

declare parse_re.simps [simp del]

text \<open>Matching ignores case: a literal matches a character with the same lower-case form. The
  dot matches every character but the newline. A digit class has no letters, so case plays no
  part in it. This is \<^verbatim>\<open>re.IGNORECASE\<close> on code points below 256; beyond that range, which the
  strings of the model do not reach, the library also lets \<^verbatim>\<open>i\<close> match the dotted capital and
  the dotless small i, \<^verbatim>\<open>s\<close> the long s and \<^verbatim>\<open>k\<close> the Kelvin sign.\<close>

fun atom_ok :: "atom \<Rightarrow> char \<Rightarrow> bool" where
  "atom_ok (Lit c) x = (lower_char x = lower_char c)"
| "atom_ok Dot x = (x \<noteq> newline)"
| "atom_ok (Range a b) x = (ord a \<le> ord x \<and> ord x \<le> ord b)"

text \<open>\<open>rep_rests a lo hi s\<close>: what can remain of \<open>s\<close> after a repetition of the atom, between
  \<open>lo\<close> and \<open>hi\<close> times, has consumed characters from its front.\<close>

fun rep_rests :: "atom \<Rightarrow> nat \<Rightarrow> nat option \<Rightarrow> string \<Rightarrow> string list" where
  "rep_rests a lo hi [] = (if lo = 0 then [[]] else [])"
| "rep_rests a lo hi (x # t) =
     (if lo = 0 then [x # t] else []) @
     (if atom_ok a x \<and> hi \<noteq> Some 0
      then rep_rests a (lo - 1) (map_option (\<lambda>h. h - 1) hi) t else [])"

text \<open>The end anchor, without \<^verbatim>\<open>re.MULTILINE\<close>, holds at the end of the string and just before
  a newline that is the last character.\<close>

fun item_rests :: "item \<Rightarrow> string \<Rightarrow> string list" where
  "item_rests (One a) s = (case s of [] \<Rightarrow> [] | x # t \<Rightarrow> if atom_ok a x then [t] else [])"
| "item_rests (Rep a lo hi) s = rep_rests a lo hi s"
| "item_rests Eos s = (if s = [] \<or> s = [newline] then [s] else [])"

fun match_items :: "item list \<Rightarrow> string \<Rightarrow> bool" where
  "match_items [] s = True"
| "match_items (i # rest) s = list_ex (match_items rest) (item_rests i s)"

definition match_here :: "regex \<Rightarrow> string \<Rightarrow> bool" where
  "match_here bs s = list_ex (\<lambda>b. match_items b s) bs"

text \<open>\<^verbatim>\<open>search\<close> tries every start position, the end of the string included.\<close>

fun search_from :: "regex \<Rightarrow> string \<Rightarrow> bool" where
  "search_from bs [] = match_here bs []"
| "search_from bs (x # t) = (match_here bs (x # t) \<or> search_from bs t)"

definition re_search_ignorecase :: "string \<Rightarrow> string \<Rightarrow> exn + bool" where
  "re_search_ignorecase pattern s =
     (case parse_re pattern of
        None \<Rightarrow> Inl (ReError pattern)
      | Some bs \<Rightarrow> Inr (search_from bs s))"

subsection \<open>\<^verbatim>\<open>urllib.parse.urlparse\<close>\<close>

text \<open>
  \<^verbatim>\<open>check_url\<close> reads two fields of the parse result, \<^verbatim>\<open>scheme\<close> and \<^verbatim>\<open>netloc\<close>, and
  catches what the parser raises. The model follows \<^verbatim>\<open>urlsplit\<close> of CPython 3.11 and 3.12 for
  these: leading control characters and spaces are dropped, tabs and line breaks are removed,
  the scheme is split off at the first colon, and the network location is what follows
  \<^verbatim>\<open>//\<close> up to the first \<^verbatim>\<open>/\<close>, \<^verbatim>\<open>?\<close> or \<^verbatim>\<open>#\<close>. A bracket without its partner raises
  \<^verbatim>\<open>ValueError\<close>. The validation of a bracketed host differs between library versions
  and rests on the \<^verbatim>\<open>ipaddress\<close> module; it is the parameter \<open>bracket_check\<close>, which gives
  the message of the \<^verbatim>\<open>ValueError\<close> for a network location that the library rejects. The check
  under compatibility normalisation (\<^verbatim>\<open>_checknetloc\<close>) rejects no string of code points
  below 256, none of which normalises to one of \<^verbatim>\<open>/?#@:\<close>. Path, parameters, query and
  fragment are never read by the checker and are left out of the record.
\<close>

record parse_result =
  scheme :: string
  netloc :: string

type_synonym bracket_check = "string \<Rightarrow> string option"

definition scheme_chars :: string where
  "scheme_chars = ''abcdefghijklmnopqrstuvwxyzABCDEFGHIJKLMNOPQRSTUVWXYZ0123456789+-.''"

text \<open>\<^verbatim>\<open>s.find(c)\<close>: the first index of the character, or \<open>-1\<close>.\<close>

fun str_find :: "char \<Rightarrow> string \<Rightarrow> int" where
  "str_find c [] = -1"
| "str_find c (x # xs) =
     (if x = c then 0 else (let i = str_find c xs in if i < 0 then -1 else i + 1))"

definition c0_control_or_space :: "char \<Rightarrow> bool" where
  "c0_control_or_space c = (ord c \<le> 32)"

definition unsafe_url_byte :: "char \<Rightarrow> bool" where
  "unsafe_url_byte c = (c \<in> set [CHR 0x09, CHR 0x0D, CHR 0x0A])"

definition splitnetloc :: "string \<Rightarrow> string" where
  "splitnetloc url = takeWhile (\<lambda>c. c \<notin> set ''/?#'') (drop 2 url)"

definition urlsplit :: "bracket_check \<Rightarrow> string \<Rightarrow> exn + parse_result" where
  "urlsplit bracket_check url0 =
     (let url = dropWhile c0_control_or_space url0;
          url = filter (\<lambda>c. \<not> unsafe_url_byte c) url;
          i = str_find (CHR '':'') url;
          (scheme_part, url) =
            (if i > 0 \<and> (case url of [] \<Rightarrow> False | c # _ \<Rightarrow> is_ascii_alpha c)
                \<and> list_all (\<lambda>c. c \<in> set scheme_chars) (take (nat i) url)
             then (lower (take (nat i) url), drop (nat i + 1) url)
             else ([], url))
      in
        if take 2 url = ''//'' then
          (let netloc_part = splitnetloc url in
           if (CHR ''['' \<in> set netloc_part \<and> CHR '']'' \<notin> set netloc_part) \<or>
              (CHR '']'' \<in> set netloc_part \<and> CHR ''['' \<notin> set netloc_part)
           then Inl (ValueError ''Invalid IPv6 URL'')
           else if CHR ''['' \<in> set netloc_part \<and> CHR '']'' \<in> set netloc_part then
             (case bracket_check netloc_part of
                Some msg \<Rightarrow> Inl (ValueError msg)
              | None \<Rightarrow> Inr \<lparr>scheme = scheme_part, netloc = netloc_part\<rparr>)
           else Inr \<lparr>scheme = scheme_part, netloc = netloc_part\<rparr>)
        else Inr \<lparr>scheme = scheme_part, netloc = []\<rparr>)"

definition urlparse :: "bracket_check \<Rightarrow> string \<Rightarrow> exn + parse_result" where
  "urlparse bracket_check url = urlsplit bracket_check url"

subsection \<open>The rule tables\<close>

definition SUSPICIOUS_PATTERNS :: "string list" where
  "SUSPICIOUS_PATTERNS =
     [''bit'' @ backslash @ ''.ly|goo'' @ backslash @ ''.gl|tinyurl'' @ backslash @ ''.com|ow''
        @ backslash @ ''.ly|t'' @ backslash @ ''.co'',
      ''@'',
      backslash @ ''.tk$|'' @ backslash @ ''.ml$|'' @ backslash @ ''.ga$|'' @ backslash
        @ ''.cf$|'' @ backslash @ ''.gq$'',
      ''[0-9]{1,3}'' @ backslash @ ''.[0-9]{1,3}'' @ backslash @ ''.[0-9]{1,3}'' @ backslash
        @ ''.[0-9]{1,3}'',
      ''paypal|amazon|microsoft|google|apple.*login'',
      ''secure.*account|verify.*account|suspended.*account'',
      ''exe$|'' @ backslash @ ''.scr$|'' @ backslash @ ''.bat$|'' @ backslash @ ''.cmd$|''
        @ backslash @ ''.vbs$'',
      ''-{10,}'']"

definition BLOCKLIST :: "string list" where
  "BLOCKLIST = [''malicious-example.com'', ''spam-domain.tk'']"

definition WHITELIST :: "string list" where
  "WHITELIST =
     [''github.com'', ''youtube.com'', ''wiz.io'', ''aws.amazon.com'', ''docs.aws.amazon.com'',
      ''owasp.org'', ''cisa.gov'', ''nist.gov'', ''csoh.org'', ''microsoft.com'', ''google.com'',
      ''cloudflare.com'', ''wikipedia.org'']"

subsection \<open>\<^verbatim>\<open>URLSafetyChecker\<close>\<close>

text \<open>The object holds two lists; a call of \<^verbatim>\<open>check_url\<close> binds both fields to new empty lists
  before anything else (lines 70 and 71), appends to them, and returns them in the result
  dictionary. Since every call starts from new lists, a dictionary returned earlier is never
  changed by a later call, and the model returns the lists by value.\<close>

record checker =
  self_warnings :: "string list"
  self_errors :: "string list"

record verdict =
  safe :: bool
  warnings :: "string list"
  errors :: "string list"
  suspicious :: bool

definition init :: checker where
  "init = \<lparr>self_warnings = [], self_errors = []\<rparr>"

definition append_warning :: "checker \<Rightarrow> string \<Rightarrow> checker" where
  "append_warning self msg = self\<lparr>self_warnings := self_warnings self @ [msg]\<rparr>"

definition append_error :: "checker \<Rightarrow> string \<Rightarrow> checker" where
  "append_error self msg = self\<lparr>self_errors := self_errors self @ [msg]\<rparr>"

definition result :: "checker \<Rightarrow> bool \<Rightarrow> verdict" where
  "result self safe_arg =
     \<lparr>safe = (safe_arg \<and> length (self_errors self) = 0),
      warnings = self_warnings self,
      errors = self_errors self,
      suspicious = (length (self_warnings self) > 0)\<rparr>"

text \<open>The loop over the blocklist returns from \<^verbatim>\<open>check_url\<close> at the first entry found in the
  domain; \<open>None\<close> means that the loop ran to its end.\<close>

fun blocklist_loop :: "checker \<Rightarrow> string \<Rightarrow> string list \<Rightarrow> (verdict \<times> checker) option" where
  "blocklist_loop self domain [] = None"
| "blocklist_loop self domain (blocked # rest) =
     (if str_in blocked domain then
        (let self = append_error self (''Domain '' @ quote @ domain @ quote @ '' is on blocklist'')
         in Some (result self False, self))
      else blocklist_loop self domain rest)"

fun pattern_loop :: "checker \<Rightarrow> string \<Rightarrow> string list \<Rightarrow> exn + checker" where
  "pattern_loop self url [] = Inr self"
| "pattern_loop self url (pattern # rest) =
     (case re_search_ignorecase pattern url of
        Inl e \<Rightarrow> Inl e
      | Inr found \<Rightarrow>
          pattern_loop
            (if found then append_warning self (''Suspicious pattern detected: '' @ pattern)
             else self)
            url rest)"

text \<open>The body of \<^verbatim>\<open>if not is_whitelisted:\<close>.\<close>

definition heuristics :: "checker \<Rightarrow> string \<Rightarrow> string \<Rightarrow> exn + checker" where
  "heuristics self url domain =
     (case pattern_loop self url SUSPICIOUS_PATTERNS of
        Inl e \<Rightarrow> Inl e
      | Inr self \<Rightarrow>
          (let self =
                 (if length domain > 50 then
                    append_warning self
                      (''Unusually long domain: '' @ str_nat (length domain) @ '' characters'')
                  else self);
               parts = split_on (CHR ''.'') domain;
               self =
                 (if length parts > 5 then
                    append_warning self
                      (''Excessive subdomains: '' @ str_nat (length parts) @ '' levels'')
                  else self)
           in Inr self))"

text \<open>\<^verbatim>\<open>check_url\<close>: \<open>Inl\<close> is an exception that leaves the method, \<open>Inr\<close> the returned
  dictionary with the object's state after the call. In \<^verbatim>\<open>not url or not isinstance(url, str)\<close>
  the truth test comes first and stands outside the \<^verbatim>\<open>try\<close> block, so what it raises leaves the
  method.\<close>

definition check_url :: "bracket_check \<Rightarrow> checker \<Rightarrow> pyval \<Rightarrow> exn + (verdict \<times> checker)" where
  "check_url bracket_check self0 url0 =
     (let self = self0\<lparr>self_warnings := [], self_errors := []\<rparr> in
      case truthy url0 of
        Inl e \<Rightarrow> Inl e
      | Inr url_true \<Rightarrow>
      if \<not> url_true \<or> \<not> isinstance_str url0 then
        (let self = append_error self ''Invalid URL: empty or not a string''
         in Inr (result self False, self))
      else
        (case py_strip url0 of
           Inl e \<Rightarrow> Inl e
         | Inr url \<Rightarrow>
             (case urlparse bracket_check url of
                Inl e \<Rightarrow>
                  (let self = append_error self (''Failed to parse URL: '' @ exn_str e)
                   in Inr (result self False, self))
              | Inr parsed \<Rightarrow>
                  if scheme parsed \<notin> set [''http'', ''https''] then
                    (let self = append_error self
                       (''Invalid scheme: '' @ scheme parsed @ '' (only http/https allowed)'')
                     in Inr (result self False, self))
                  else
                    (let self =
                           (if scheme parsed = ''http'' then
                              append_warning self ''Uses HTTP (not HTTPS) - may be insecure''
                            else self);
                         domain = lower (netloc parsed)
                     in
                       if domain = [] then
                         (let self = append_error self ''No domain found in URL''
                          in Inr (result self False, self))
                       else
                         (case blocklist_loop self domain BLOCKLIST of
                            Some r \<Rightarrow> Inr r
                          | None \<Rightarrow>
                              (let is_whitelisted = list_ex (\<lambda>w. str_in w domain) WHITELIST in
                               if \<not> is_whitelisted then
                                 (case heuristics self url domain of
                                    Inl e \<Rightarrow> Inl e
                                  | Inr self \<Rightarrow> Inr (result self True, self))
                               else Inr (result self True, self)))))))"

text \<open>\<^verbatim>\<open>check_batch\<close>: the loop appends one pair per URL to \<^verbatim>\<open>results\<close>.\<close>

fun check_batch_loop ::
  "bracket_check \<Rightarrow> checker \<Rightarrow> pyval list \<Rightarrow> (pyval \<times> verdict) list \<Rightarrow>
   exn + ((pyval \<times> verdict) list \<times> checker)" where
  "check_batch_loop bracket_check self [] results = Inr (results, self)"
| "check_batch_loop bracket_check self (url # urls) results =
     (case check_url bracket_check self url of
        Inl e \<Rightarrow> Inl e
      | Inr (r, self') \<Rightarrow> check_batch_loop bracket_check self' urls (results @ [(url, r)]))"

definition check_batch ::
  "bracket_check \<Rightarrow> checker \<Rightarrow> pyval list \<Rightarrow> exn + ((pyval \<times> verdict) list \<times> checker)" where
  "check_batch bracket_check self urls = check_batch_loop bracket_check self urls []"

subsection \<open>Vocabulary of the specification\<close>

text \<open>The value a call returns, when it returns: the dictionary without the object's state.\<close>

definition returned :: "exn + ('a \<times> checker) \<Rightarrow> 'a option" where
  "returned r = (case r of Inl e \<Rightarrow> None | Inr (v, c) \<Rightarrow> Some v)"

text \<open>The truth test of the value returns (it does for every string, number, boolean, list
  and for \<^verbatim>\<open>None\<close>).\<close>

definition has_truth_value :: "pyval \<Rightarrow> bool" where
  "has_truth_value x = (case truthy x of Inl e \<Rightarrow> False | Inr t \<Rightarrow> True)"

text \<open>A library that accepts every bracketed host, for the concrete examples.\<close>

definition accept_brackets :: bracket_check where
  "accept_brackets netloc_part = None"

definition pattern_warning :: "string \<Rightarrow> string" where
  "pattern_warning pattern = ''Suspicious pattern detected: '' @ pattern"

definition http_warnings :: "parse_result \<Rightarrow> string list" where
  "http_warnings parsed =
     (if scheme parsed = ''http'' then [''Uses HTTP (not HTTPS) - may be insecure''] else [])"

definition blocklist_error :: "string \<Rightarrow> string" where
  "blocklist_error domain = ''Domain '' @ quote @ domain @ quote @ '' is on blocklist''"

definition blocked :: "string \<Rightarrow> bool" where
  "blocked domain = list_ex (\<lambda>b. str_in b domain) BLOCKLIST"

definition whitelisted :: "string \<Rightarrow> bool" where
  "whitelisted domain = list_ex (\<lambda>w. str_in w domain) WHITELIST"

definition re_found :: "string \<Rightarrow> string \<Rightarrow> bool" where
  "re_found pattern s = (re_search_ignorecase pattern s = Inr True)"

text \<open>The warnings of the heuristic scan, in the order the code appends them.\<close>

definition scan_warnings :: "string \<Rightarrow> string \<Rightarrow> string list" where
  "scan_warnings url domain =
     map pattern_warning (filter (\<lambda>p. re_found p url) SUSPICIOUS_PATTERNS) @
     (if length domain > 50
      then [''Unusually long domain: '' @ str_nat (length domain) @ '' characters''] else []) @
     (if length (split_on (CHR ''.'') domain) > 5
      then [''Excessive subdomains: '' @ str_nat (length (split_on (CHR ''.'') domain))
              @ '' levels'']
      else [])"

text \<open>The dictionary and the object's state after a call that recorded the warnings \<open>ws\<close> and
  the errors \<open>es\<close>.\<close>

definition outcome :: "string list \<Rightarrow> string list \<Rightarrow> verdict \<times> checker" where
  "outcome ws es =
     (\<lparr>safe = (es = []), warnings = ws, errors = es, suspicious = (ws \<noteq> [])\<rparr>,
      \<lparr>self_warnings = ws, self_errors = es\<rparr>)"

definition regular :: "exn + verdict \<times> checker \<Rightarrow> bool" where
  "regular r = (\<exists>ws es. r = Inr (outcome ws es) \<and> length es \<le> 1)"

text \<open>A sequence of literal characters as pattern items.\<close>

definition lits :: "string \<Rightarrow> item list" where
  "lits w = map (\<lambda>c. One (Lit c)) w"

text \<open>\<open>contains_ci s w\<close>: the word \<open>w\<close> occurs in \<open>s\<close>, upper and lower case taken as equal.
  \<open>contains_then s w1 w2\<close>: \<open>w1\<close> occurs in \<open>s\<close> and \<open>w2\<close> occurs after it, with no line
  break between the two.\<close>

definition contains_ci :: "string \<Rightarrow> string \<Rightarrow> bool" where
  "contains_ci s w = (\<exists>pre p post. s = pre @ p @ post \<and> lower p = lower w)"

definition contains_then :: "string \<Rightarrow> string \<Rightarrow> string \<Rightarrow> bool" where
  "contains_then s w1 w2 =
     (\<exists>pre p mid q post. s = pre @ p @ mid @ q @ post
        \<and> lower p = lower w1 \<and> newline \<notin> set mid \<and> lower q = lower w2)"

text \<open>The fifth entry of the rule table.\<close>

definition brand_pattern :: string where
  "brand_pattern = ''paypal|amazon|microsoft|google|apple.*login''"

section \<open>Properties\<close>

subsection \<open>The string functions\<close>

text \<open>The substring test of the model is the contiguous-sublist relation of the library.\<close>

lemma startswith_prefix: "startswith s p \<longleftrightarrow> prefix p s"
  by (induction s p rule: startswith.induct) auto

lemma str_in_sublist: "str_in sub s \<longleftrightarrow> sublist sub s"
  by (induction s) (simp_all add: startswith_prefix sublist_Cons_right)

subsection \<open>The loops\<close>

lemma patterns_compile: "list_all (\<lambda>p. parse_re p \<noteq> None) SUSPICIOUS_PATTERNS"
  by code_simp

lemma pattern_loop_returns:
  "list_all (\<lambda>p. parse_re p \<noteq> None) ps \<Longrightarrow>
   pattern_loop self url ps =
     Inr (self\<lparr>self_warnings :=
           self_warnings self @ map pattern_warning (filter (\<lambda>p. re_found p url) ps)\<rparr>)"
proof (induction ps arbitrary: self)
  case Nil
  show ?case by simp
next
  case (Cons p ps)
  from Cons.prems obtain bs where bs: "parse_re p = Some bs" by auto
  from Cons.prems have rest: "list_all (\<lambda>p. parse_re p \<noteq> None) ps" by simp
  show ?case
    using bs Cons.IH [OF rest]
    by (simp add: re_search_ignorecase_def re_found_def append_warning_def pattern_warning_def)
qed

lemma heuristics_returns:
  "heuristics self url domain =
     Inr (self\<lparr>self_warnings := self_warnings self @ scan_warnings url domain\<rparr>)"
  unfolding heuristics_def pattern_loop_returns [OF patterns_compile]
  by (simp add: Let_def append_warning_def scan_warnings_def)

lemma reset_checker:
  "self\<lparr>self_warnings := ws, self_errors := es\<rparr> = \<lparr>self_warnings = ws, self_errors = es\<rparr>"
  by (cases self) simp

lemma blocklist_loop_eq:
  "blocklist_loop \<lparr>self_warnings = ws, self_errors = []\<rparr> domain bl =
     (if list_ex (\<lambda>b. str_in b domain) bl then Some (outcome ws [blocklist_error domain])
      else None)"
  by (induction bl)
    (simp_all add: Let_def append_error_def result_def outcome_def blocklist_error_def)

subsection \<open>What \<^verbatim>\<open>check_url\<close> returns, branch by branch\<close>

lemma check_url_raises: "truthy x = Inl e \<Longrightarrow> check_url bc self x = Inl e"
  by (simp add: check_url_def)

lemma check_url_invalid:
  "truthy x = Inr t \<Longrightarrow> \<not> t \<or> \<not> isinstance_str x \<Longrightarrow>
   check_url bc self x = Inr (outcome [] [''Invalid URL: empty or not a string''])"
  by (simp add: check_url_def Let_def append_error_def result_def outcome_def)

lemma check_url_string:
  assumes "s \<noteq> []"
  shows "check_url bc self (PyStr s) =
     (case urlparse bc (strip s) of
        Inl e \<Rightarrow> Inr (outcome [] [''Failed to parse URL: '' @ exn_str e])
      | Inr parsed \<Rightarrow>
          if scheme parsed \<noteq> ''http'' \<and> scheme parsed \<noteq> ''https'' then
            Inr (outcome []
              [''Invalid scheme: '' @ scheme parsed @ '' (only http/https allowed)''])
          else if lower (netloc parsed) = [] then
            Inr (outcome (http_warnings parsed) [''No domain found in URL''])
          else if blocked (lower (netloc parsed)) then
            Inr (outcome (http_warnings parsed) [blocklist_error (lower (netloc parsed))])
          else if whitelisted (lower (netloc parsed)) then
            Inr (outcome (http_warnings parsed) [])
          else
            Inr (outcome
              (http_warnings parsed @ scan_warnings (strip s) (lower (netloc parsed))) []))"
  using assms
  by (simp add: check_url_def Let_def reset_checker append_error_def append_warning_def
      blocklist_loop_eq heuristics_returns blocked_def whitelisted_def http_warnings_def
      result_def outcome_def split: sum.split)

lemma regular_outcome: "length es \<le> 1 \<Longrightarrow> regular (Inr (outcome ws es))"
  unfolding regular_def by blast

lemma truth_value_cases:
  assumes "has_truth_value x"
  obtains t where "truthy x = Inr t" "\<not> t \<or> \<not> isinstance_str x"
  | s where "x = PyStr s" "s \<noteq> []"
proof -
  from assms obtain t where t: "truthy x = Inr t"
    by (auto simp: has_truth_value_def split: sum.splits)
  show ?thesis
  proof (cases "\<not> t \<or> \<not> isinstance_str x")
    case True
    with t that(1) show ?thesis by blast
  next
    case False
    then obtain s where "x = PyStr s" by (cases x) auto
    with t False that(2) show ?thesis by auto
  qed
qed

lemma check_url_regular: "has_truth_value x \<Longrightarrow> regular (check_url bc self x)"
proof (erule truth_value_cases)
  fix t assume "truthy x = Inr t" "\<not> t \<or> \<not> isinstance_str x"
  then show ?thesis
    by (simp add: check_url_invalid regular_outcome)
next
  fix s assume x: "x = PyStr s" and s: "s \<noteq> []"
  show ?thesis
    unfolding x check_url_string [OF s]
    by (simp add: regular_outcome split: sum.split)
qed

lemma check_url_outcome:
  "has_truth_value x \<Longrightarrow> \<exists>ws es. check_url bc self x = Inr (outcome ws es) \<and> length es \<le> 1"
  using check_url_regular [of x bc self] unfolding regular_def .

lemma check_url_returns:
  "has_truth_value x \<Longrightarrow> \<exists>v self'. check_url bc self x = Inr (v, self')"
  using check_url_outcome [of x bc self] by (auto simp: outcome_def)

lemma returned_has_truth_value:
  "returned (check_url bc self x) = Some v \<Longrightarrow> has_truth_value x"
  by (cases "truthy x")
    (simp_all add: check_url_raises returned_def has_truth_value_def)

lemma returned_outcome:
  assumes "returned (check_url bc self x) = Some v"
  shows "\<exists>ws es. v = fst (outcome ws es) \<and> length es \<le> 1"
proof -
  from assms have "has_truth_value x" by (rule returned_has_truth_value)
  then obtain ws es where "check_url bc self x = Inr (outcome ws es)" "length es \<le> 1"
    using check_url_outcome [of x bc self] by blast
  with assms have "v = fst (outcome ws es) \<and> length es \<le> 1"
    by (simp add: returned_def outcome_def)
  then show ?thesis by blast
qed

lemma has_truth_value_returned:
  "has_truth_value x \<Longrightarrow> \<exists>v. returned (check_url bc self x) = Some v"
  using check_url_returns [of x bc self] by (auto simp: returned_def)

subsection \<open>Totality and the shape of the verdict\<close>




text \<open>Claim C6: every returned verdict is coherent: \<^verbatim>\<open>safe\<close> is false exactly when the list
  of errors is not empty, and \<^verbatim>\<open>suspicious\<close> is true exactly when the list of warnings is not
  empty. A verdict is returned for every value whose truth test returns.\<close>

theorem check_url_coherent:
  "(has_truth_value x \<longrightarrow> (\<exists>v. returned (check_url bc self x) = Some v))
   \<and> (\<forall>v. returned (check_url bc self x) = Some v \<longrightarrow>
          (\<not> safe v \<longleftrightarrow> errors v \<noteq> []) \<and> (suspicious v \<longleftrightarrow> warnings v \<noteq> []))"
proof (rule conjI)
  show "has_truth_value x \<longrightarrow> (\<exists>v. returned (check_url bc self x) = Some v)"
    by (simp add: has_truth_value_returned)
next
  show "\<forall>v. returned (check_url bc self x) = Some v \<longrightarrow>
          (\<not> safe v \<longleftrightarrow> errors v \<noteq> []) \<and> (suspicious v \<longleftrightarrow> warnings v \<noteq> [])"
  proof (rule allI, rule impI)
    fix v assume "returned (check_url bc self x) = Some v"
    then obtain ws es where "v = fst (outcome ws es)"
      using returned_outcome by blast
    then show "(\<not> safe v \<longleftrightarrow> errors v \<noteq> []) \<and> (suspicious v \<longleftrightarrow> warnings v \<noteq> [])"
      by (simp add: outcome_def)
  qed
qed

theorem check_url_coherent_witness:
  "\<exists>v. returned (check_url accept_brackets init (PyStr ''http://example.com'')) = Some v
     \<and> (\<not> safe v \<longleftrightarrow> errors v \<noteq> []) \<and> (suspicious v \<longleftrightarrow> warnings v \<noteq> [])"
proof -
  have "has_truth_value (PyStr ''http://example.com'')"
    by (simp add: has_truth_value_def)
  with check_url_coherent [of "PyStr ''http://example.com''" accept_brackets init]
  show ?thesis by blast
qed






subsection \<open>Blocklist and allowlist\<close>

lemma blocked_nonempty: "blocked d \<Longrightarrow> d \<noteq> []"
  by (auto simp: blocked_def BLOCKLIST_def)

lemma whitelisted_nonempty: "whitelisted d \<Longrightarrow> d \<noteq> []"
  by (auto simp: whitelisted_def WHITELIST_def)

text \<open>Claim C1, as amended: when the host of a parsed http or https URL contains a blocklist
  entry, the verdict is unsafe, its only error is the blocklist error, and no warning of the
  heuristic scan is recorded. The warnings are empty for https; for http they hold the one
  warning about insecure transport, which the code records before it looks at the host.\<close>

theorem blocklisted_host_verdict:
  assumes "s \<noteq> []"
    and "urlparse bc (strip s) = Inr parsed"
    and "scheme parsed = ''http'' \<or> scheme parsed = ''https''"
    and "blocked (lower (netloc parsed))"
  shows "returned (check_url bc self (PyStr s)) =
     Some \<lparr>safe = False,
           warnings = (if scheme parsed = ''http''
                       then [''Uses HTTP (not HTTPS) - may be insecure''] else []),
           errors = [blocklist_error (lower (netloc parsed))],
           suspicious = (scheme parsed = ''http'')\<rparr>"
  using assms(2-4) blocked_nonempty [OF assms(4)]
  unfolding check_url_string [OF assms(1)]
  by (auto simp: returned_def outcome_def http_warnings_def)

theorem blocklisted_host_verdict_witness:
  "returned (check_url accept_brackets init (PyStr ''  HTTPS://Spam-Domain.TK/offer '')) =
     Some \<lparr>safe = False, warnings = [],
           errors = [blocklist_error ''spam-domain.tk''], suspicious = False\<rparr>"
proof -
  let ?p = "\<lparr>scheme = ''https'', netloc = ''Spam-Domain.TK''\<rparr>"
  have 1: "''  HTTPS://Spam-Domain.TK/offer '' \<noteq> []" by simp
  have 2: "urlparse accept_brackets (strip ''  HTTPS://Spam-Domain.TK/offer '') = Inr ?p"
    by code_simp
  have 3: "scheme ?p = ''http'' \<or> scheme ?p = ''https''" by simp
  have 4: "blocked (lower (netloc ?p))" by code_simp
  have 5: "lower (netloc ?p) = ''spam-domain.tk''" by code_simp
  show ?thesis
    using blocklisted_host_verdict [OF 1 2 3 4, of init] unfolding 5 by simp
qed

text \<open>Claim C1 as first stated asks for no warning at all. It fails for an http URL on a
  blocklisted host: the verdict carries the warning about insecure transport.\<close>

theorem blocklisted_http_counterexample:
  "urlparse accept_brackets (strip ''http://malicious-example.com/'')
     = Inr \<lparr>scheme = ''http'', netloc = ''malicious-example.com''\<rparr>
   \<and> str_in ''malicious-example.com'' (lower ''malicious-example.com'')
   \<and> returned (check_url accept_brackets init (PyStr ''http://malicious-example.com/'')) =
     Some \<lparr>safe = False,
           warnings = [''Uses HTTP (not HTTPS) - may be insecure''],
           errors = [''Domain '' @ quote @ ''malicious-example.com'' @ quote @ '' is on blocklist''],
           suspicious = True\<rparr>"
  by code_simp

text \<open>Claim C5: for an https URL whose host contains an allowlist entry and no blocklist
  entry, the verdict is safe and has no warning, whatever the rest of the URL contains.\<close>

theorem allowlisted_https_no_warnings:
  assumes "s \<noteq> []"
    and "urlparse bc (strip s) = Inr parsed"
    and "scheme parsed = ''https''"
    and "\<not> blocked (lower (netloc parsed))"
    and "whitelisted (lower (netloc parsed))"
  shows "returned (check_url bc self (PyStr s)) =
     Some \<lparr>safe = True, warnings = [], errors = [], suspicious = False\<rparr>"
  using assms(2-5) whitelisted_nonempty [OF assms(5)]
  unfolding check_url_string [OF assms(1)]
  by (auto simp: returned_def outcome_def http_warnings_def)

theorem allowlisted_https_no_warnings_witness:
  "returned (check_url accept_brackets init
       (PyStr ''https://GitHub.com/secure-account/paypal-login@1.2.3.4/a.exe'')) =
     Some \<lparr>safe = True, warnings = [], errors = [], suspicious = False\<rparr>"
proof -
  let ?s = "''https://GitHub.com/secure-account/paypal-login@1.2.3.4/a.exe''"
  let ?p = "\<lparr>scheme = ''https'', netloc = ''GitHub.com''\<rparr>"
  have 1: "?s \<noteq> []" by simp
  have 2: "urlparse accept_brackets (strip ?s) = Inr ?p" by code_simp
  have 3: "scheme ?p = ''https''" by simp
  have 4: "\<not> blocked (lower (netloc ?p))" by code_simp
  have 5: "whitelisted (lower (netloc ?p))" by code_simp
  show ?thesis
    using allowlisted_https_no_warnings [OF 1 2 3 4 5, of init] .
qed

subsection \<open>The scenario of the free top-level domain\<close>

text \<open>Claim C3 expects two warnings for \<^verbatim>\<open>https://secure-verify-account.tk/login\<close>: one for the
  top-level domain and one for the phishing phrase. The code searches every pattern in the whole
  URL, and the pattern for top-level domains is anchored at the end of the string; this URL ends
  in \<^verbatim>\<open>/login\<close>, so only the phrase pattern is found.\<close>

theorem tk_scenario_verdict:
  "returned (check_url accept_brackets init (PyStr ''https://secure-verify-account.tk/login'')) =
     Some \<lparr>safe = True,
           warnings = [pattern_warning ''secure.*account|verify.*account|suspended.*account''],
           errors = [], suspicious = True\<rparr>"
  by code_simp

theorem tk_scenario_verdict_witness:
  "\<exists>v. returned (check_url accept_brackets init (PyStr ''https://secure-verify-account.tk/login''))
        = Some v
     \<and> safe v \<and> suspicious v \<and> length (warnings v) = 1"
  using tk_scenario_verdict by simp

subsection \<open>Surrounding whitespace\<close>

lemma lstrip_fixed: "s = [] \<or> \<not> isspace (hd s) \<Longrightarrow> lstrip s = s"
  by (cases s) (auto simp: lstrip_def)

lemma rstrip_fixed: "s = [] \<or> \<not> isspace (last s) \<Longrightarrow> rstrip s = s"
proof -
  assume a: "s = [] \<or> \<not> isspace (last s)"
  have "dropWhile isspace (rev s) = rev s"
  proof (cases "s = []")
    case True
    then show ?thesis by simp
  next
    case False
    with a have "\<not> isspace (hd (rev s))" by (simp add: hd_rev)
    with False show ?thesis by (cases "rev s") auto
  qed
  then show ?thesis by (simp add: rstrip_def)
qed

lemma rstrip_last: "rstrip s = [] \<or> \<not> isspace (last (rstrip s))"
proof (cases "rstrip s = []")
  case True
  then show ?thesis by simp
next
  case False
  then have ne: "dropWhile isspace (rev s) \<noteq> []" by (simp add: rstrip_def)
  then have "\<not> isspace (hd (dropWhile isspace (rev s)))" by (rule hd_dropWhile)
  with ne show ?thesis by (simp add: rstrip_def last_rev)
qed

lemma rstrip_prefix: "\<exists>w. s = rstrip s @ w"
proof -
  have "rstrip s @ rev (takeWhile isspace (rev s))
      = rev (takeWhile isspace (rev s) @ dropWhile isspace (rev s))"
    unfolding rstrip_def by (simp only: rev_append)
  also have "\<dots> = s" by simp
  finally have "s = rstrip s @ rev (takeWhile isspace (rev s))" by simp
  then show ?thesis ..
qed

lemma strip_hd: "strip s = [] \<or> \<not> isspace (hd (strip s))"
proof (cases "strip s = []")
  case True
  then show ?thesis by simp
next
  case False
  obtain w where w: "lstrip s = strip s @ w"
    using rstrip_prefix [of "lstrip s"] by (auto simp: strip_def)
  with False have "hd (strip s) = hd (lstrip s)" by (metis hd_append2)
  moreover from w False have "lstrip s \<noteq> []" by auto
  then have "\<not> isspace (hd (lstrip s))" unfolding lstrip_def by (rule hd_dropWhile)
  ultimately show ?thesis by simp
qed

lemma strip_idem: "strip (strip s) = strip s"
proof -
  have "lstrip (strip s) = strip s" using strip_hd [of s] by (rule lstrip_fixed)
  moreover have "rstrip (strip s) = strip s"
    using rstrip_last [of "lstrip s"] unfolding strip_def [symmetric] by (rule rstrip_fixed)
  ultimately show ?thesis by (simp add: strip_def)
qed

text \<open>Claim C10: whitespace around the URL does not change the result. For a non-empty string
  whose stripped form is non-empty too, the call returns what it returns for the stripped
  string.\<close>

theorem check_url_strip:
  assumes "s \<noteq> []" and "strip s \<noteq> []"
  shows "check_url bc self (PyStr s) = check_url bc self (PyStr (strip s))"
  unfolding check_url_string [OF assms(1)] check_url_string [OF assms(2)] strip_idem ..

theorem check_url_strip_witness:
  "check_url accept_brackets init (PyStr '' http://example.com/a b  '')
     = check_url accept_brackets init (PyStr ''http://example.com/a b'')"
proof -
  have 1: "'' http://example.com/a b  '' \<noteq> []" by simp
  have 2: "strip '' http://example.com/a b  '' = ''http://example.com/a b''" by code_simp
  then have 3: "strip '' http://example.com/a b  '' \<noteq> []" by simp
  show ?thesis using check_url_strip [OF 1 3, of accept_brackets init] unfolding 2 .
qed

subsection \<open>Batches\<close>

lemma check_url_state_independent: "check_url bc self x = check_url bc self' x"
proof (cases "truthy x")
  case (Inl e)
  then show ?thesis by (simp add: check_url_raises)
next
  case (Inr t)
  show ?thesis
  proof (cases "\<not> t \<or> \<not> isinstance_str x")
    case True
    with Inr show ?thesis by (simp add: check_url_invalid)
  next
    case False
    with Inr obtain s where x: "x = PyStr s" and s: "s \<noteq> []"
      by (cases x) auto
    show ?thesis unfolding x check_url_string [OF s] ..
  qed
qed

lemma check_batch_loop_results:
  "list_all has_truth_value urls \<Longrightarrow>
   \<exists>rs self'. check_batch_loop bc self urls acc = Inr (acc @ rs, self')
     \<and> list_all2 (\<lambda>u r. fst r = u \<and> (\<forall>c. returned (check_url bc c u) = Some (snd r))) urls rs"
proof (induction urls arbitrary: self acc)
  case Nil
  show ?case by simp
next
  case (Cons u urls)
  from Cons.prems have u: "has_truth_value u" and us: "list_all has_truth_value urls"
    by simp_all
  obtain v c1 where step: "check_url bc self u = Inr (v, c1)"
    using check_url_returns [OF u, of bc self] by blast
  obtain rs self' where
    rest: "check_batch_loop bc c1 urls (acc @ [(u, v)]) = Inr ((acc @ [(u, v)]) @ rs, self')"
    and all: "list_all2 (\<lambda>u r. fst r = u \<and> (\<forall>c. returned (check_url bc c u) = Some (snd r))) urls rs"
    using Cons.IH [OF us, of c1 "acc @ [(u, v)]"] by blast
  have here: "\<forall>c. returned (check_url bc c u) = Some v"
    using step check_url_state_independent [of bc _ u self] by (simp add: returned_def)
  have "check_batch_loop bc self (u # urls) acc = Inr (acc @ ((u, v) # rs), self')"
    using step rest by simp
  moreover have "list_all2 (\<lambda>u r. fst r = u \<and> (\<forall>c. returned (check_url bc c u) = Some (snd r)))
      (u # urls) ((u, v) # rs)"
    using here all by simp
  ultimately show ?case by blast
qed

text \<open>Claim C9: for a sequence of strings (more generally, of values whose truth test returns),
  \<^verbatim>\<open>check_batch\<close> returns one pair per URL, in the order of the input; the pair at each
  position holds the URL at that position and the verdict that a call of \<^verbatim>\<open>check_url\<close> on
  that URL alone returns, from any state of the object.\<close>

theorem check_batch_independent:
  assumes "list_all has_truth_value urls"
  shows "\<exists>results self'. check_batch bc self urls = Inr (results, self')
     \<and> length results = length urls
     \<and> (\<forall>i < length urls. fst (results ! i) = urls ! i
          \<and> (\<forall>c. returned (check_url bc c (urls ! i)) = Some (snd (results ! i))))"
proof -
  obtain rs self' where r: "check_batch bc self urls = Inr (rs, self')"
    and all: "list_all2 (\<lambda>u r. fst r = u \<and> (\<forall>c. returned (check_url bc c u) = Some (snd r))) urls rs"
    using check_batch_loop_results [OF assms, of bc self "[]"] by (auto simp: check_batch_def)
  from all have "length rs = length urls" by (simp add: list_all2_lengthD)
  moreover from all have "\<forall>i < length urls. fst (rs ! i) = urls ! i
      \<and> (\<forall>c. returned (check_url bc c (urls ! i)) = Some (snd (rs ! i)))"
    by (simp add: list_all2_conv_all_nth)
  ultimately show ?thesis using r by blast
qed

theorem check_batch_independent_witness:
  "\<exists>results self'.
     check_batch accept_brackets init
       [PyStr ''https://a.com'', PyStr ''not a url'', PyStr ''https://github.com'']
       = Inr (results, self')
     \<and> length results = 3
     \<and> fst (results ! 1) = PyStr ''not a url''
     \<and> returned (check_url accept_brackets init (PyStr ''not a url'')) = Some (snd (results ! 1))"
proof -
  let ?urls = "[PyStr ''https://a.com'', PyStr ''not a url'', PyStr ''https://github.com'']"
  have h: "list_all has_truth_value ?urls" by (simp add: has_truth_value_def)
  obtain results self' where r: "check_batch accept_brackets init ?urls = Inr (results, self')"
    and n: "length results = length ?urls"
    and a: "\<forall>i < length ?urls. fst (results ! i) = ?urls ! i
          \<and> (\<forall>c. returned (check_url accept_brackets c (?urls ! i)) = Some (snd (results ! i)))"
    using check_batch_independent [OF h, of accept_brackets init] by blast
  have "(1::nat) < length ?urls" by simp
  with a have "fst (results ! 1) = ?urls ! 1
      \<and> (\<forall>c. returned (check_url accept_brackets c (?urls ! 1)) = Some (snd (results ! 1)))"
    by blast
  then have "fst (results ! 1) = PyStr ''not a url''
      \<and> returned (check_url accept_brackets init (PyStr ''not a url'')) = Some (snd (results ! 1))"
    by simp
  with r n show ?thesis by simp
qed

subsection \<open>What a pattern search finds\<close>

lemma match_items_lits:
  "match_items (lits w @ rest) s \<longleftrightarrow>
     (\<exists>p t. s = p @ t \<and> lower p = lower w \<and> match_items rest t)"
proof (induction w arbitrary: s)
  case Nil
  show ?case by (simp add: lits_def lower_def)
next
  case (Cons c w)
  show ?case
  proof (cases s)
    case Nil
    then show ?thesis by (simp add: lits_def lower_def)
  next
    case (Cons x t)
    have "match_items (lits (c # w) @ rest) (x # t) \<longleftrightarrow>
          lower_char x = lower_char c \<and> match_items (lits w @ rest) t"
      by (simp add: lits_def)
    also have "\<dots> \<longleftrightarrow> lower_char x = lower_char c \<and>
          (\<exists>p t'. t = p @ t' \<and> lower p = lower w \<and> match_items rest t')"
      using Cons.IH [of t] by simp
    also have "\<dots> \<longleftrightarrow> (\<exists>p t'. x # t = p @ t' \<and> lower p = lower (c # w) \<and> match_items rest t')"
      (is "?L \<longleftrightarrow> ?R")
    proof
      assume ?L
      then obtain p t' where "t = p @ t'" "lower p = lower w" "match_items rest t'"
        and "lower_char x = lower_char c" by blast
      then have "x # t = (x # p) @ t' \<and> lower (x # p) = lower (c # w) \<and> match_items rest t'"
        by (simp add: lower_def)
      then show ?R by blast
    next
      assume ?R
      then obtain p t' where p: "x # t = p @ t'" "lower p = lower (c # w)" "match_items rest t'"
        by blast
      from p(2) obtain y p' where "p = y # p'" by (cases p) (auto simp: lower_def)
      with p show ?L by (auto simp: lower_def)
    qed
    finally show ?thesis using Cons by simp
  qed
qed

lemma rep_rests_dot_star:
  "set (rep_rests Dot 0 None s) = {t. \<exists>mid. s = mid @ t \<and> newline \<notin> set mid}"
proof (induction s)
  case Nil
  show ?case by auto
next
  case (Cons x s)
  show ?case (is "?A = ?B")
  proof (intro set_eqI iffI)
    fix t assume "t \<in> ?A"
    then consider "t = x # s" | "x \<noteq> newline" "t \<in> set (rep_rests Dot 0 None s)"
      by (auto split: if_splits)
    then show "t \<in> ?B"
    proof cases
      case 1
      then have "x # s = [] @ t \<and> newline \<notin> set []" by simp
      then show ?thesis by blast
    next
      case 2
      with Cons.IH obtain mid where "s = mid @ t" "newline \<notin> set mid" by auto
      with 2 have "x # s = (x # mid) @ t \<and> newline \<notin> set (x # mid)" by auto
      then show ?thesis by blast
    qed
  next
    fix t assume "t \<in> ?B"
    then obtain mid where m: "x # s = mid @ t" "newline \<notin> set mid" by blast
    show "t \<in> ?A"
    proof (cases mid)
      case Nil
      with m have "t = x # s" by simp
      then show ?thesis by simp
    next
      case (Cons y mid')
      with m have "x \<noteq> newline" "s = mid' @ t" "newline \<notin> set mid'" by auto
      with Cons.IH show ?thesis by auto
    qed
  qed
qed

lemma match_items_dot_star:
  "match_items (Rep Dot 0 None # rest) s \<longleftrightarrow>
     (\<exists>mid t. s = mid @ t \<and> newline \<notin> set mid \<and> match_items rest t)"
proof -
  have "match_items (Rep Dot 0 None # rest) s \<longleftrightarrow>
        (\<exists>t \<in> set (rep_rests Dot 0 None s). match_items rest t)"
    by (simp add: list_ex_iff)
  then show ?thesis unfolding rep_rests_dot_star by blast
qed

lemma search_from_iff:
  "search_from bs s \<longleftrightarrow> (\<exists>pre t. s = pre @ t \<and> match_here bs t)"
proof (induction s)
  case Nil
  show ?case by simp
next
  case (Cons x s)
  show ?case (is "?L \<longleftrightarrow> ?R")
  proof
    assume ?L
    then consider "match_here bs (x # s)" | "search_from bs s" by auto
    then show ?R
    proof cases
      case 1
      then have "x # s = [] @ (x # s) \<and> match_here bs (x # s)" by simp
      then show ?thesis by blast
    next
      case 2
      with Cons.IH obtain pre t where "s = pre @ t" "match_here bs t" by blast
      then have "x # s = (x # pre) @ t \<and> match_here bs t" by simp
      then show ?thesis by blast
    qed
  next
    assume ?R
    then obtain pre t where p: "x # s = pre @ t" "match_here bs t" by blast
    show ?L
    proof (cases pre)
      case Nil
      with p have "match_here bs (x # s)" by simp
      then show ?thesis by simp
    next
      case (Cons y pre')
      with p have "s = pre' @ t" by simp
      with p(2) Cons.IH show ?thesis by auto
    qed
  qed
qed

lemma contains_ci_sublist: "contains_ci s w \<longleftrightarrow> sublist (lower w) (lower s)"
proof
  assume "contains_ci s w"
  then obtain pre p post where "s = pre @ p @ post" "lower p = lower w"
    unfolding contains_ci_def by blast
  then have "lower s = lower pre @ lower w @ lower post" by (simp add: lower_def)
  then show "sublist (lower w) (lower s)" unfolding sublist_def by blast
next
  assume "sublist (lower w) (lower s)"
  then obtain a b where "map lower_char s = a @ map lower_char w @ b"
    unfolding sublist_def lower_def by blast
  then obtain pre rest where 1: "s = pre @ rest" and "map lower_char w @ b = map lower_char rest"
    by (auto simp: map_eq_append_conv)
  then obtain p post where 2: "rest = p @ post" and 3: "map lower_char w = map lower_char p"
    by (auto simp: append_eq_map_conv)
  from 1 2 3 have "s = pre @ p @ post \<and> lower p = lower w" by (simp add: lower_def)
  then show "contains_ci s w" unfolding contains_ci_def by blast
qed

lemma brand_compiled:
  "parse_re brand_pattern =
     Some [lits ''paypal'', lits ''amazon'', lits ''microsoft'', lits ''google'',
           lits ''apple'' @ Rep Dot 0 None # lits ''login'']"
  by code_simp

lemma match_lits: "match_items (lits w) t \<longleftrightarrow> (\<exists>p post. t = p @ post \<and> lower p = lower w)"
  using match_items_lits [of w "[]" t] by simp

lemma search_lits:
  "(\<exists>pre t. s = pre @ t \<and> match_items (lits w) t) \<longleftrightarrow> contains_ci s w"
  unfolding match_lits contains_ci_def by blast

lemma match_apple_login:
  "match_items (lits w1 @ Rep Dot 0 None # lits w2) t \<longleftrightarrow>
     (\<exists>p mid q post. t = p @ mid @ q @ post
        \<and> lower p = lower w1 \<and> newline \<notin> set mid \<and> lower q = lower w2)"
  (is "?L \<longleftrightarrow> ?R")
proof
  assume ?L
  then obtain p t1 where 1: "t = p @ t1" "lower p = lower w1"
    and "match_items (Rep Dot 0 None # lits w2) t1"
    unfolding match_items_lits by blast
  then obtain mid t2 where 2: "t1 = mid @ t2" "newline \<notin> set mid"
    and "match_items (lits w2) t2"
    unfolding match_items_dot_star by blast
  then obtain q post where 3: "t2 = q @ post" "lower q = lower w2"
    unfolding match_lits by blast
  from 1 2 3 have "t = p @ mid @ q @ post \<and> lower p = lower w1 \<and> newline \<notin> set mid
      \<and> lower q = lower w2" by simp
  then show ?R by blast
next
  assume ?R
  then obtain p mid q post where r: "t = p @ mid @ q @ post" "lower p = lower w1"
    "newline \<notin> set mid" "lower q = lower w2" by blast
  have "match_items (lits w2) (q @ post)"
    unfolding match_lits using r(4) by blast
  with r(3) have "match_items (Rep Dot 0 None # lits w2) (mid @ q @ post)"
    unfolding match_items_dot_star by blast
  with r(1,2) show ?L
    unfolding match_items_lits by blast
qed

lemma search_apple_login:
  "(\<exists>pre t. s = pre @ t \<and> match_items (lits w1 @ Rep Dot 0 None # lits w2) t)
     \<longleftrightarrow> contains_then s w1 w2"
  unfolding match_apple_login contains_then_def by blast

lemma ex_suffix_disj:
  "(\<exists>pre t. s = pre @ t \<and> (A t \<or> B t)) \<longleftrightarrow>
     (\<exists>pre t. s = pre @ t \<and> A t) \<or> (\<exists>pre t. s = pre @ t \<and> B t)"
  by blast

lemma search_from_single:
  "search_from [b] s \<longleftrightarrow> (\<exists>pre t. s = pre @ t \<and> match_items b t)"
  unfolding search_from_iff match_here_def by simp

lemma search_from_Cons:
  "search_from (b # bs) s \<longleftrightarrow>
     (\<exists>pre t. s = pre @ t \<and> match_items b t) \<or> search_from bs s"
  unfolding search_from_iff match_here_def list_ex_Cons_iff ex_suffix_disj ..

lemma search_from_Nil: "search_from [] s \<longleftrightarrow> False"
  by (induction s) (simp_all add: match_here_def)

lemma brand_found:
  "re_found brand_pattern s \<longleftrightarrow>
     contains_ci s ''paypal'' \<or> contains_ci s ''amazon'' \<or> contains_ci s ''microsoft''
     \<or> contains_ci s ''google'' \<or> contains_then s ''apple'' ''login''"
proof -
  have "re_found brand_pattern s \<longleftrightarrow>
      search_from [lits ''paypal'', lits ''amazon'', lits ''microsoft'', lits ''google'',
           lits ''apple'' @ Rep Dot 0 None # lits ''login''] s"
    unfolding re_found_def re_search_ignorecase_def brand_compiled
    by (simp only: option.case sum.inject simp_thms)
  then show ?thesis
    unfolding search_from_Cons search_from_Nil search_lits search_apple_login
    by (simp only: simp_thms)
qed

subsection \<open>The brand rule\<close>

lemma brand_is_fifth: "SUSPICIOUS_PATTERNS ! 4 = brand_pattern"
  by (simp add: SUSPICIOUS_PATTERNS_def brand_pattern_def)

lemma brand_in_table: "brand_pattern \<in> set SUSPICIOUS_PATTERNS"
  by (simp add: SUSPICIOUS_PATTERNS_def brand_pattern_def)

lemma pattern_warning_inj: "pattern_warning p = pattern_warning q \<longleftrightarrow> p = q"
  by (simp add: pattern_warning_def)

lemma brand_warning_iff:
  "pattern_warning brand_pattern \<in> set (http_warnings parsed @ scan_warnings url domain)
     \<longleftrightarrow> re_found brand_pattern url"
proof -
  have 1: "pattern_warning brand_pattern \<notin> set (http_warnings parsed)"
    by (simp add: http_warnings_def pattern_warning_def)
  have 2: "pattern_warning brand_pattern
      \<noteq> ''Unusually long domain: '' @ str_nat n @ '' characters''" for n
    by (simp add: pattern_warning_def)
  have 3: "pattern_warning brand_pattern
      \<noteq> ''Excessive subdomains: '' @ str_nat n @ '' levels''" for n
    by (simp add: pattern_warning_def)
  have 4: "pattern_warning brand_pattern
      \<in> set (map pattern_warning (filter (\<lambda>p. re_found p url) SUSPICIOUS_PATTERNS))
      \<longleftrightarrow> re_found brand_pattern url"
    using brand_in_table by (auto simp: pattern_warning_inj)
  show ?thesis
    using 1 2 3 4 by (simp add: scan_warnings_def)
qed

text \<open>What the scan computes for the brand pattern, on the strings of the model (code points
  below 256): for a URL that reaches the heuristic scan, the warning of the brand rule is
  recorded exactly when the URL, case ignored, contains \<^verbatim>\<open>paypal\<close>, \<^verbatim>\<open>amazon\<close>,
  \<^verbatim>\<open>microsoft\<close> or \<^verbatim>\<open>google\<close>, or contains \<^verbatim>\<open>apple\<close> followed on the same line by
  \<^verbatim>\<open>login\<close>. In the pattern the alternation binds weaker than the sequence, so \<^verbatim>\<open>.*login\<close>
  belongs to the last alternative only.\<close>

lemma brand_warning_recorded_iff:
  assumes "s \<noteq> []"
    and "urlparse bc (strip s) = Inr parsed"
    and "scheme parsed = ''http'' \<or> scheme parsed = ''https''"
    and "lower (netloc parsed) \<noteq> []"
    and "\<not> blocked (lower (netloc parsed))"
    and "\<not> whitelisted (lower (netloc parsed))"
  shows "\<exists>v. returned (check_url bc self (PyStr s)) = Some v
     \<and> (pattern_warning brand_pattern \<in> set (warnings v) \<longleftrightarrow>
          contains_ci (strip s) ''paypal'' \<or> contains_ci (strip s) ''amazon''
          \<or> contains_ci (strip s) ''microsoft'' \<or> contains_ci (strip s) ''google''
          \<or> contains_then (strip s) ''apple'' ''login'')"
proof -
  let ?ws = "http_warnings parsed @ scan_warnings (strip s) (lower (netloc parsed))"
  have "check_url bc self (PyStr s) = Inr (outcome ?ws [])"
    unfolding check_url_string [OF assms(1)] using assms(2-6) by auto
  then have "returned (check_url bc self (PyStr s)) = Some (fst (outcome ?ws []))"
    and "warnings (fst (outcome ?ws [])) = ?ws"
    by (simp_all add: returned_def outcome_def)
  then show ?thesis
    using brand_warning_iff [of parsed "strip s" "lower (netloc parsed)"]
      brand_found [of "strip s"] by simp
qed

text \<open>Claim C2 says that the brand rule records its warning only for a brand name combined
  with \<^verbatim>\<open>login\<close>, and that a brand name without \<^verbatim>\<open>login\<close> anywhere in the URL does not
  trigger it. The code does otherwise: \<^verbatim>\<open>https://paypal.example.org\<close> contains \<^verbatim>\<open>paypal\<close> and
  nowhere \<^verbatim>\<open>login\<close>, and the verdict carries the warning of the brand rule.\<close>

theorem brand_without_login_verdict:
  "returned (check_url accept_brackets init (PyStr ''https://paypal.example.org'')) =
     Some \<lparr>safe = True, warnings = [pattern_warning brand_pattern], errors = [],
           suspicious = True\<rparr>
   \<and> contains_ci ''https://paypal.example.org'' ''paypal''
   \<and> \<not> contains_ci ''https://paypal.example.org'' ''login''"
  unfolding contains_ci_sublist by code_simp

theorem brand_without_login_verdict_witness:
  "\<exists>v. returned (check_url accept_brackets init (PyStr ''https://paypal.example.org'')) = Some v
     \<and> pattern_warning brand_pattern \<in> set (warnings v)
     \<and> \<not> contains_ci ''https://paypal.example.org'' ''login''"
  using brand_without_login_verdict by simp

subsection \<open>Repeated calls and the scenarios of the specification\<close>

text \<open>Idempotence: a second call on the same argument, from the state the first call left,
  returns the same verdict and leaves the same state (for a value whose truth test
  returns).\<close>

theorem check_url_idempotent:
  assumes "has_truth_value x"
  shows "\<exists>v c. check_url bc self x = Inr (v, c) \<and> check_url bc c x = Inr (v, c)"
proof -
  obtain v c where 1: "check_url bc self x = Inr (v, c)"
    using check_url_returns [OF assms, of bc self] by blast
  then have "check_url bc c x = Inr (v, c)"
    using check_url_state_independent [of bc c x self] by simp
  with 1 show ?thesis by blast
qed

theorem check_url_idempotent_witness:
  "\<exists>v c. check_url accept_brackets init (PyStr ''http://bit.ly/x'') = Inr (v, c)
     \<and> check_url accept_brackets c (PyStr ''http://bit.ly/x'') = Inr (v, c)"
proof -
  have "has_truth_value (PyStr ''http://bit.ly/x'')" by (simp add: has_truth_value_def)
  from check_url_idempotent [OF this, of accept_brackets init] show ?thesis .
qed

text \<open>Three scenarios: a URL with the scheme \<^verbatim>\<open>ftp\<close> is unsafe with the scheme error; a plain
  http URL is safe and suspicious with the one warning about insecure transport; a URL on
  \<^verbatim>\<open>github.com\<close> is safe with no warning.\<close>

theorem spec_scenarios:
  "returned (check_url accept_brackets init (PyStr ''ftp://example.com'')) =
     Some \<lparr>safe = False, warnings = [],
           errors = [''Invalid scheme: ftp (only http/https allowed)''], suspicious = False\<rparr>
   \<and> returned (check_url accept_brackets init (PyStr ''http://example.com'')) =
     Some \<lparr>safe = True, warnings = [''Uses HTTP (not HTTPS) - may be insecure''],
           errors = [], suspicious = True\<rparr>
   \<and> returned (check_url accept_brackets init (PyStr ''https://github.com/some/repo'')) =
     Some \<lparr>safe = True, warnings = [], errors = [], suspicious = False\<rparr>"
  by code_simp

theorem spec_scenarios_witness:
  "\<exists>v. returned (check_url accept_brackets init (PyStr ''ftp://example.com'')) = Some v
     \<and> \<not> safe v \<and> length (errors v) = 1"
  using spec_scenarios by simp

end
